theory Spec2Isabelle
  imports Complex_Main
begin

section \<open>Downsampling engine (server/index.js, history endpoint, lines 515-553)\<close>

text \<open>
  A reading parsed from the upstream history payload is the object
  \<^verbatim>\<open>{ time: parseInt(timestamp), value: parseFloat(value) }\<close>.
  The time is epoch seconds. The value is a JavaScript number; it is modelled as a real,
  so NaN and the rounding of the one subtraction the engine performs are outside the model.
  The field \<^verbatim>\<open>value\<close> is named \<open>val\<close> here.
\<close>

record sample =
  time :: int
  val :: real

text \<open>
  \<^verbatim>\<open>const maxPoints = period === '1h' ? 100 : period === '24h' ? 300
       : period === '7d' ? 400 : period === '30d' ? 300 : 200;\<close>
\<close>

definition maxPoints :: "string \<Rightarrow> nat" where
  "maxPoints period =
     (if period = ''1h'' then 100
      else if period = ''24h'' then 300
      else if period = ''7d'' then 400
      else if period = ''30d'' then 300
      else 200)"

text \<open>
  \<^verbatim>\<open>xs.slice(a, b)\<close> for indices \<open>0 \<le> a\<close>, \<open>0 \<le> b\<close>: the elements at positions
  \<open>a, ..., min b (length xs) - 1\<close>, none when \<open>b \<le> a\<close>.
\<close>

definition slice :: "'a list \<Rightarrow> nat \<Rightarrow> nat \<Rightarrow> 'a list" where
  "slice xs a b = take (b - a) (drop a xs)"

text \<open>
  The inner loop over one bucket:
  \<^verbatim>\<open>
  for (const point of bucket) {
    if (point.value < minPoint.value) minPoint = point;
    if (point.value > maxPoint.value) maxPoint = point;
  }\<close>
\<close>

fun minmax_loop :: "sample list \<Rightarrow> sample \<times> sample \<Rightarrow> sample \<times> sample" where
  "minmax_loop [] (minPoint, maxPoint) = (minPoint, maxPoint)"
| "minmax_loop (point # rest) (minPoint, maxPoint) =
     minmax_loop rest
       (if val point < val minPoint then point else minPoint,
        if val point > val maxPoint then point else maxPoint)"

text \<open>
  The body of the bucket loop: what one bucket pushes onto \<^verbatim>\<open>reduced\<close>.
  An empty bucket is skipped (\<^verbatim>\<open>continue\<close>); otherwise both extrema start at
  \<^verbatim>\<open>bucket[0]\<close>.
\<close>

definition emit_bucket :: "sample list \<Rightarrow> sample list" where
  "emit_bucket bucket =
     (case bucket of
        [] \<Rightarrow> []
      | b0 # _ \<Rightarrow>
          (case minmax_loop bucket (b0, b0) of
             (minPoint, maxPoint) \<Rightarrow>
               if time minPoint < time maxPoint
               then minPoint # (if val maxPoint - val minPoint \<ge> 2 then [maxPoint] else [])
               else maxPoint # (if val maxPoint - val minPoint \<ge> 2 then [minPoint] else [])))"

text \<open>
  \<^verbatim>\<open>for (let i = 0; i < readings.length; i += bucketSize) { ... }\<close>
  The loop does not end when \<^verbatim>\<open>bucketSize\<close> is 0, so it is a partial function:
  \<open>None\<close> stands for a loop that never returns.
\<close>

partial_function (option) bucket_loop ::
  "sample list \<Rightarrow> nat \<Rightarrow> nat \<Rightarrow> sample list \<Rightarrow> sample list option" where
  "bucket_loop readings bucketSize i reduced =
     (if i < length readings
      then bucket_loop readings bucketSize (i + bucketSize)
             (reduced @ emit_bucket (slice readings i (min (i + bucketSize) (length readings))))
      else Some reduced)"

text \<open>
  The engine. \<^verbatim>\<open>Math.ceil(readings.length / maxPoints)\<close> is taken in exact arithmetic;
  \<^verbatim>\<open>reduced.sort((a, b) => a.time - b.time)\<close> is a stable sort on the time.
\<close>

definition downsample :: "string \<Rightarrow> sample list \<Rightarrow> sample list option" where
  "downsample period readings =
     (if length readings \<le> maxPoints period then Some readings
      else
        (let bucketSize = nat \<lceil>real (length readings) / real (maxPoints period)\<rceil>
         in map_option (sort_key time) (bucket_loop readings bucketSize 0 [])))"

text \<open>The buckets the loop visits, as a list (used to state what the loop computes).\<close>

function buckets :: "nat \<Rightarrow> 'a list \<Rightarrow> 'a list list" where
  "buckets n xs = (if n = 0 \<or> xs = [] then [] else take n xs # buckets n (drop n xs))"
  by pat_completeness auto
termination
  by (relation "measure (\<lambda>(n, xs). length xs)") auto

declare buckets.simps [simp del]

text \<open>
  An over-budget input on which every bucket of two holds a swing of 10: the readings at
  times \<open>t, t + 1, ...\<close> alternate between 0 (even time) and 10 (odd time).
\<close>

primrec zigzag :: "int \<Rightarrow> nat \<Rightarrow> sample list" where
  "zigzag t 0 = []"
| "zigzag t (Suc n) = \<lparr>time = t, val = (if even t then 0 else 10)\<rparr> # zigzag (t + 1) n"

section \<open>Reading store (server/index.js, lines 16-26 and 52-159)\<close>

text \<open>
  A stored reading is \<^verbatim>\<open>{ moisture, timestamp }\<close>. The timestamp is an ISO-8601 string
  produced by \<^verbatim>\<open>toISOString\<close>; it is modelled by the instant it denotes, in epoch
  milliseconds (what \<^verbatim>\<open>new Date(r.timestamp).getTime()\<close> returns).
\<close>

record reading =
  moisture :: real
  timestamp :: int

text \<open>
  The history file holds one JSON object, from sensor id to the sensor's series.
  \<open>None\<close> is a file that does not exist or does not parse: \<^verbatim>\<open>loadHistory\<close> then
  returns the empty object. Writes are taken to succeed (a failed write is logged and
  leaves the file as it was).
\<close>

type_synonym history = "string \<rightharpoonup> reading list"

definition loadHistory :: "history option \<Rightarrow> history" where
  "loadHistory file = (case file of Some h \<Rightarrow> h | None \<Rightarrow> Map.empty)"

text \<open>\<^verbatim>\<open>xs.slice(-n)\<close>: the last \<open>n\<close> elements, all of them when there are fewer.\<close>

definition slice_last :: "nat \<Rightarrow> 'a list \<Rightarrow> 'a list" where
  "slice_last n xs = drop (length xs - n) xs"

definition storeReading :: "string \<Rightarrow> real \<Rightarrow> int \<Rightarrow> history option \<Rightarrow> history option" where
  "storeReading sensorId m t file =
     (let history = loadHistory file;
          series = (case history sensorId of None \<Rightarrow> [] | Some rs \<Rightarrow> rs)
                     @ [\<lparr>moisture = m, timestamp = t\<rparr>];
          kept = (if length series > 50000 then slice_last 50000 series else series)
      in Some (history(sensorId \<mapsto> kept)))"

text \<open>A sequence of appends, each \<open>(sensorId, moisture, timestamp)\<close>, in the order they are made.\<close>

definition storeReadings :: "(string \<times> real \<times> int) list \<Rightarrow> history option \<Rightarrow> history option" where
  "storeReadings appends file = fold (\<lambda>(sensorId, m, t). storeReading sensorId m t) appends file"

text \<open>The series of one sensor as \<^verbatim>\<open>history[sensorId] || []\<close> reads it.\<close>

definition series_of :: "history option \<Rightarrow> string \<Rightarrow> reading list" where
  "series_of file sensorId = (case loadHistory file sensorId of None \<Rightarrow> [] | Some rs \<Rightarrow> rs)"

text \<open>The \<^verbatim>\<open>switch (period)\<close> of \<^verbatim>\<open>getHistory\<close>: the cutoff instant, from the clock reading \<open>now\<close>.\<close>

definition cutoffTime :: "string \<Rightarrow> int \<Rightarrow> int" where
  "cutoffTime period now =
     (if period = ''1h'' then now - 24 * 60 * 60 * 1000
      else if period = ''24h'' then now - 24 * 60 * 60 * 1000
      else if period = ''7d'' then now - 7 * 24 * 60 * 60 * 1000
      else if period = ''30d'' then now - 30 * 24 * 60 * 60 * 1000
      else if period = ''1y'' then now - 365 * 24 * 60 * 60 * 1000
      else now - 24 * 60 * 60 * 1000)"

definition skipFactor :: "string \<Rightarrow> nat" where
  "skipFactor period =
     (if period = ''1h'' then 1
      else if period = ''24h'' then 5
      else if period = ''7d'' then 60
      else if period = ''30d'' then 360
      else if period = ''1y'' then 1440
      else 1)"

text \<open>\<^verbatim>\<open>xs.filter((_, i) => i % k === 0)\<close>\<close>

definition filter_index :: "nat \<Rightarrow> 'a list \<Rightarrow> 'a list" where
  "filter_index k xs = map snd (filter (\<lambda>(i, x). i mod k = 0) (enumerate 0 xs))"

text \<open>
  The deduplication loop of the hourly view. \<^verbatim>\<open>seen\<close> is a JavaScript Map, which keeps
  its entries in insertion order: an association list, appended to. The key of a reading
  is built from the local calendar fields (year, month, day, hour, minute) of its timestamp;
  \<open>minuteKey\<close> stands for that function of the instant, which depends on the server's time zone.
\<close>

fun seen_loop :: "(int \<Rightarrow> 'k) \<Rightarrow> reading list \<Rightarrow> ('k \<times> reading) list \<Rightarrow> ('k \<times> reading) list" where
  "seen_loop minuteKey [] seen = seen"
| "seen_loop minuteKey (r # rs) seen =
     seen_loop minuteKey rs
       (if map_of seen (minuteKey (timestamp r)) = None
        then seen @ [(minuteKey (timestamp r), r)]
        else seen)"

text \<open>
  \<^verbatim>\<open>getHistory(sensorId, period)\<close>. The result's \<^verbatim>\<open>label\<close> is a locale-formatted string of
  the timestamp and is left out; each point is the reading's timestamp and moisture.
\<close>

definition getHistory ::
  "(int \<Rightarrow> 'k) \<Rightarrow> int \<Rightarrow> history option \<Rightarrow> string \<Rightarrow> string \<Rightarrow> reading list" where
  "getHistory minuteKey now file sensorId period =
     (let readings = series_of file sensorId in
      if length readings = 0 then []
      else
        (let filtered = filter (\<lambda>r. timestamp r \<ge> cutoffTime period now) readings;
             reduced = filter_index (skipFactor period) filtered
         in if period = ''1h''
            then sort_key timestamp (map snd (seen_loop minuteKey reduced []))
            else reduced))"

section \<open>Server state, accounts and effects\<close>

text \<open>
  An entry of \<^verbatim>\<open>accounts\<close> (the configured accounts that have all three credentials).
  The field \<^verbatim>\<open>id\<close> is named \<open>acc_id\<close>.
\<close>

record account =
  acc_id :: string
  appKey :: string
  apiKey :: string
  mac :: string

text \<open>
  A sensor as \<^verbatim>\<open>fetchEcowittData\<close> and \<^verbatim>\<open>generateMockSensors\<close> build it. The timestamp is
  optional because the handler tests it (\<^verbatim>\<open>sensor.timestamp || now\<close>).
\<close>

record sensor =
  sensor_id :: string
  sensor_accountId :: string
  sensorKey :: string
  sensor_moisture :: real
  sensor_unit :: string
  ad :: "int option"
  sensor_timestamp :: "int option"

text \<open>
  The body of the \<^verbatim>\<open>/api/sensors\<close> response: \<^verbatim>\<open>mock\<close> and \<^verbatim>\<open>errors\<close> are absent
  (\<open>False\<close>, \<open>None\<close>) or present.
\<close>

record sensors_response =
  sensors :: "sensor list"
  mock :: bool
  errors :: "(string \<times> string) list option"
  lastUpdated :: int

text \<open>
  The settings record. Every field may be absent from the persisted JSON object and from
  the body of an update (\<open>None\<close> is \<^verbatim>\<open>undefined\<close>).
\<close>

record settings =
  names :: "(string \<times> string) list option"
  colors :: "(string \<times> string) list option"
  order :: "string list option"
  hidden :: "string list option"
  thresholds :: "(string \<times> real \<times> real) list option"

text \<open>
  The state the handlers share: the module variables \<^verbatim>\<open>sensorCache\<close> and
  \<^verbatim>\<open>sensorCacheTime\<close>, and the two files.
\<close>

record server_state =
  sensorCache :: "sensors_response option"
  sensorCacheTime :: int
  historyFile :: "history option"
  settingsFile :: "settings option"

text \<open>
  What a handler does besides answering: the calls to the upstream API and the reads of the
  reading store, in the order they happen.
\<close>

datatype effect =
    CallHistoryApi string int int string
  | CallRealtimeApi string
  | ReadStore string string

section \<open>History endpoint (server/index.js, lines 212-237 and 423-573)\<close>

text \<open>
  What \<^verbatim>\<open>fetchEcowittHistory\<close> resolves to: \<^verbatim>\<open>{ error, data: [] }\<close>, or
  \<^verbatim>\<open>{ data, raw }\<close>. Of the data only \<^verbatim>\<open>data[channelKey]?.soilmoisture?.list\<close> is read:
  it is modelled per channel key, \<open>None\<close> when that expression is falsy, else the entries of
  the list in the order of \<^verbatim>\<open>Object.entries\<close>, each already parsed to a sample.
\<close>

datatype history_fetch =
    FetchError string
  | FetchData "string \<rightharpoonup> sample list"

text \<open>
  The environment of one request to the history endpoint: the clock when the handler
  starts, the clock when \<^verbatim>\<open>getHistory\<close> runs, and the answer of the upstream API to a call.
\<close>

record history_env =
  now :: int
  now_local :: int
  fetchEcowittHistory :: "account \<Rightarrow> int \<Rightarrow> int \<Rightarrow> string \<Rightarrow> history_fetch"

record history_response =
  res_sensorId :: string
  res_period :: string
  res_data :: "reading list"
  res_source :: "string option"
  res_error :: "string option"

text \<open>\<^verbatim>\<open>\d\<close> in a JavaScript regular expression without the unicode flag: an ASCII digit.\<close>

definition is_digit :: "char \<Rightarrow> bool" where
  "is_digit c = (c \<in> set ''0123456789'')"

definition strip_prefix :: "string \<Rightarrow> string \<Rightarrow> string option" where
  "strip_prefix p s = (if take (length p) s = p then Some (drop (length p) s) else None)"

text \<open>
  \<^verbatim>\<open>sensorId.match(/^(account\d+)_soil_ch(\d+)$/)\<close>: the two groups, or \<open>None\<close> for no match.
  The digits of the first group are followed by an underscore, so the greedy \<^verbatim>\<open>\d+\<close> takes
  all the digits there are.
\<close>

definition match_sensorId :: "string \<Rightarrow> (string \<times> string) option" where
  "match_sensorId sensorId =
     (case strip_prefix ''account'' sensorId of
        None \<Rightarrow> None
      | Some r1 \<Rightarrow>
          (let ds1 = takeWhile is_digit r1; r2 = dropWhile is_digit r1 in
           if ds1 = [] then None
           else
             (case strip_prefix ''_soil_ch'' r2 of
                None \<Rightarrow> None
              | Some ds2 \<Rightarrow>
                  if ds2 \<noteq> [] \<and> list_all is_digit ds2
                  then Some (''account'' @ ds1, ds2)
                  else None)))"

text \<open>The \<^verbatim>\<open>switch (period)\<close> of the handler: the start of the requested range.\<close>

definition startDate :: "string \<Rightarrow> int \<Rightarrow> int" where
  "startDate period t =
     (if period = ''1h'' then t - 60 * 60 * 1000
      else if period = ''24h'' then t - 24 * 60 * 60 * 1000
      else if period = ''7d'' then t - 7 * 24 * 60 * 60 * 1000
      else if period = ''30d'' then t - 30 * 24 * 60 * 60 * 1000
      else if period = ''1y'' then t - 365 * 24 * 60 * 60 * 1000
      else t - 24 * 60 * 60 * 1000)"

text \<open>
  \<^verbatim>\<open>new Date(ms).toISOString()\<close> throws a RangeError (message \<^verbatim>\<open>Invalid time value\<close>)
  unless the instant is within 8.64e15 milliseconds of the epoch.
\<close>

definition valid_date :: "int \<Rightarrow> bool" where
  "valid_date ms = (\<bar>ms\<bar> \<le> 8640000000000000)"

text \<open>The fallback every failing branch takes: \<^verbatim>\<open>getHistory\<close>, tagged \<^verbatim>\<open>source: 'local'\<close>.\<close>

definition local_response ::
  "(int \<Rightarrow> 'k) \<Rightarrow> history_env \<Rightarrow> server_state \<Rightarrow> string \<Rightarrow> string \<Rightarrow> string option
     \<Rightarrow> history_response" where
  "local_response minuteKey e s sensorId period err =
     \<lparr>res_sensorId = sensorId, res_period = period,
      res_data = getHistory minuteKey (now_local e) (historyFile s) sensorId period,
      res_source = Some ''local'', res_error = err\<rparr>"

text \<open>
  The handler of \<^verbatim>\<open>GET /api/sensors/:sensorId/history\<close>. It answers with the JSON body,
  the state it leaves and its effects; \<open>None\<close> is a handler that never answers (the bucket
  loop not ending). The handler assigns no module variable and writes no file, so every
  branch returns the state it was given.
\<close>

definition history_handler ::
  "(int \<Rightarrow> 'k) \<Rightarrow> account list \<Rightarrow> history_env \<Rightarrow> server_state \<Rightarrow> string \<Rightarrow> string option
     \<Rightarrow> (history_response \<times> server_state \<times> effect list) option" where
  "history_handler minuteKey accounts e s sensorId periodParam =
     (let period = (case periodParam of None \<Rightarrow> ''24h'' | Some p \<Rightarrow> p) in
      case match_sensorId sensorId of
        None \<Rightarrow>
          Some (\<lparr>res_sensorId = sensorId, res_period = period, res_data = [],
                  res_source = None, res_error = Some ''Invalid sensor ID format''\<rparr>, s, [])
      | Some (accountId, channel) \<Rightarrow>
          (case find (\<lambda>a. acc_id a = accountId) accounts of
             None \<Rightarrow>
               Some (\<lparr>res_sensorId = sensorId, res_period = period, res_data = [],
                       res_source = None, res_error = Some ''Account not found''\<rparr>, s, [])
           | Some account \<Rightarrow>
               if period = ''1h''
               then Some (local_response minuteKey e s sensorId ''1h'' None, s,
                          [ReadStore sensorId ''1h''])
               else
                 (let call = CallHistoryApi (acc_id account) (startDate period (now e)) (now e) channel;
                      fallback = Some (local_response minuteKey e s sensorId period None, s,
                                       [call, ReadStore sensorId period])
                  in case fetchEcowittHistory e account (startDate period (now e)) (now e) channel of
                       FetchError msg \<Rightarrow>
                         \<comment> \<open>an empty message is falsy: the handler goes on, finds no channel
                            in \<^verbatim>\<open>data: []\<close>, and falls back all the same\<close>
                         if msg \<noteq> [] then fallback else fallback
                     | FetchData payload \<Rightarrow>
                         (case payload (''soil_ch'' @ channel) of
                            None \<Rightarrow> fallback
                          | Some entries \<Rightarrow>
                              (case downsample period (sort_key time entries) of
                                 None \<Rightarrow> None
                               | Some reduced \<Rightarrow>
                                   if list_all (\<lambda>r. valid_date (time r * 1000)) reduced
                                   then Some (\<lparr>res_sensorId = sensorId, res_period = period,
                                                res_data = map (\<lambda>r. \<lparr>moisture = val r,
                                                                      timestamp = time r * 1000\<rparr>) reduced,
                                                res_source = Some ''ecowitt'', res_error = None\<rparr>,
                                              s, [call])
                                   else Some (local_response minuteKey e s sensorId period
                                                (Some ''Invalid time value''), s,
                                              [call, ReadStore sensorId period]))))))"

section \<open>Live poller and cache (server/index.js, lines 281-357)\<close>

text \<open>
  What \<^verbatim>\<open>fetchEcowittData\<close> resolves to for one account: the account id, an error message
  when the call failed (then no sensors), the sensors otherwise.
\<close>

record account_result =
  result_accountId :: string
  result_error :: "string option"
  result_sensors :: "sensor list"

text \<open>
  The environment of one request to \<^verbatim>\<open>/api/sensors\<close>: the clock at the cache test, the
  upstream answer per account, the clock once the answers are in (the \<^verbatim>\<open>now\<close> of the
  stored readings, the default of \<^verbatim>\<open>lastUpdated\<close>, the new \<^verbatim>\<open>sensorCacheTime\<close>), and
  what \<^verbatim>\<open>generateMockSensors\<close> draws.
\<close>

record sensors_env =
  t_request :: int
  fetchEcowittData :: "account \<Rightarrow> account_result"
  t_fetched :: int
  mockSensors :: "sensor list"

definition SENSOR_CACHE_TTL :: int where
  "SENSOR_CACHE_TTL = 5000"

text \<open>\<^verbatim>\<open>results.filter(r => r.error).map(r => ({ accountId, error }))\<close>; an empty message is falsy.\<close>

definition collect_errors :: "account_result list \<Rightarrow> (string \<times> string) list" where
  "collect_errors results =
     List.map_filter
       (\<lambda>r. case result_error r of
               None \<Rightarrow> None
             | Some msg \<Rightarrow> if msg \<noteq> [] then Some (result_accountId r, msg) else None)
       results"

text \<open>The \<^verbatim>\<open>reduce\<close> that finds the most recent sensor timestamp, from 0.\<close>

definition latestSensorTime :: "sensor list \<Rightarrow> int" where
  "latestSensorTime allSensors =
     fold (\<lambda>sensor latest.
             case sensor_timestamp sensor of
               None \<Rightarrow> latest
             | Some t \<Rightarrow> if t > latest then t else latest)
       allSensors 0"

text \<open>
  The handler of \<^verbatim>\<open>GET /api/sensors\<close>. Its \<^verbatim>\<open>catch\<close> branch answers exceptions that the
  typed model excludes (a history file of another shape), and is not represented.
\<close>

definition sensors_handler ::
  "bool \<Rightarrow> account list \<Rightarrow> sensors_env \<Rightarrow> server_state
     \<Rightarrow> sensors_response \<times> server_state \<times> effect list" where
  "sensors_handler USE_MOCK_DATA accounts e s =
     (if USE_MOCK_DATA \<or> length accounts = 0
      then (\<lparr>sensors = mockSensors e, mock = True, errors = None, lastUpdated = t_request e\<rparr>,
            s, [])
      else
        case (case sensorCache s of
                None \<Rightarrow> None
              | Some cached \<Rightarrow>
                  if t_request e - sensorCacheTime s < SENSOR_CACHE_TTL then Some cached else None) of
          Some cached \<Rightarrow> (cached, s, [])
        | None \<Rightarrow>
        (let results = map (fetchEcowittData e) accounts;
             calls = map (\<lambda>a. CallRealtimeApi (acc_id a)) accounts;
             allSensors = concat (map result_sensors results);
             errs = collect_errors results;
             stored = s\<lparr>historyFile :=
                        fold (\<lambda>sensor.
                                storeReading (sensor_id sensor) (sensor_moisture sensor)
                                  (case sensor_timestamp sensor of
                                     Some t \<Rightarrow> t
                                   | None \<Rightarrow> t_fetched e))
                          allSensors (historyFile s)\<rparr>
         in if length allSensors = 0 \<and> length errs > 0
            then (\<lparr>sensors = mockSensors e, mock = True, errors = Some errs,
                    lastUpdated = t_fetched e\<rparr>, stored, calls)
            else
              (let response =
                     \<lparr>sensors = allSensors, mock = False,
                      errors = (if length errs > 0 then Some errs else None),
                      lastUpdated = (if latestSensorTime allSensors > 0
                                     then latestSensorTime allSensors
                                     else t_fetched e)\<rparr>
               in (response,
                   stored\<lparr>sensorCache := Some response, sensorCacheTime := t_fetched e\<rparr>,
                   calls))))"

text \<open>
  The states a running server can be in. The module starts with no snapshot
  (\<^verbatim>\<open>sensorCache = null\<close>, \<^verbatim>\<open>sensorCacheTime = 0\<close>); only the \<^verbatim>\<open>/api/sensors\<close> handler
  assigns the two variables; anything else (the other handlers, the files changing)
  leaves them as they are.
\<close>

inductive reachable :: "bool \<Rightarrow> account list \<Rightarrow> server_state \<Rightarrow> bool"
  for USE_MOCK_DATA :: bool and accounts :: "account list" where
  start: "sensorCache s = None \<Longrightarrow> sensorCacheTime s = 0 \<Longrightarrow> reachable USE_MOCK_DATA accounts s"
| poll: "reachable USE_MOCK_DATA accounts s \<Longrightarrow>
         sensors_handler USE_MOCK_DATA accounts e s = (r, s', c) \<Longrightarrow>
         reachable USE_MOCK_DATA accounts s'"
| other: "reachable USE_MOCK_DATA accounts s \<Longrightarrow>
          sensorCache s' = sensorCache s \<Longrightarrow> sensorCacheTime s' = sensorCacheTime s \<Longrightarrow>
          reachable USE_MOCK_DATA accounts s'"

section \<open>Settings store (server/index.js, lines 28-50 and 592-607)\<close>

text \<open>
  \<^verbatim>\<open>loadSettings\<close>: the parsed file, with \<^verbatim>\<open>thresholds\<close> defaulted to the empty object when
  it is missing; the all-empty record when the file does not exist or does not parse.
\<close>

definition loadSettings :: "settings option \<Rightarrow> settings" where
  "loadSettings file =
     (case file of
        Some st \<Rightarrow> if thresholds st = None then st\<lparr>thresholds := Some []\<rparr> else st
      | None \<Rightarrow> \<lparr>names = Some [], colors = Some [], order = Some [], hidden = Some [],
                  thresholds = Some []\<rparr>)"

text \<open>
  The handler of \<^verbatim>\<open>POST /api/settings\<close>: the merged record is written to the settings
  file (the write is taken to succeed) and is the response.
\<close>

definition post_settings :: "settings \<Rightarrow> server_state \<Rightarrow> settings \<times> server_state" where
  "post_settings body s =
     (let currentSettings = loadSettings (settingsFile s);
          newSettings =
            \<lparr>names = (if names body \<noteq> None then names body else names currentSettings),
             colors = (if colors body \<noteq> None then colors body else colors currentSettings),
             order = (if order body \<noteq> None then order body else order currentSettings),
             hidden = (if hidden body \<noteq> None then hidden body else hidden currentSettings),
             thresholds = (if thresholds body \<noteq> None then thresholds body
                           else thresholds currentSettings)\<rparr>
      in (newSettings, s\<lparr>settingsFile := Some newSettings\<rparr>))"

section \<open>Notions the properties are stated with\<close>

text \<open>
  The readings that a sequence of appends adds to one sensor's series, in the order of the
  appends.
\<close>

definition appended_to :: "string \<Rightarrow> (string \<times> real \<times> int) list \<Rightarrow> reading list" where
  "appended_to s appends =
     map (\<lambda>(sid, m, t). \<lparr>moisture = m, timestamp = t\<rparr>) (filter (\<lambda>(sid, m, t). sid = s) appends)"

text \<open>
  The pattern of a sensor id in words: \<open>account\<close>, a non-empty run of digits \<open>ds1\<close>,
  \<open>_soil_ch\<close>, a non-empty run of digits \<open>ds2\<close>. It is compared with \<open>match_sensorId\<close>
  below.
\<close>

definition sensorId_pattern :: "string \<Rightarrow> string \<Rightarrow> string \<Rightarrow> bool" where
  "sensorId_pattern sensorId ds1 ds2 =
     (ds1 \<noteq> [] \<and> ds2 \<noteq> [] \<and> list_all is_digit ds1 \<and> list_all is_digit ds2 \<and>
      sensorId = ''account'' @ ds1 @ ''_soil_ch'' @ ds2)"

text \<open>
  The readings of a stored series at or after a cutoff instant, in stored order
  (\<^verbatim>\<open>readings.filter(r => new Date(r.timestamp) >= cutoffTime)\<close>).
\<close>

definition window :: "int \<Rightarrow> reading list \<Rightarrow> reading list" where
  "window cutoff stored = filter (\<lambda>r. cutoff \<le> timestamp r) stored"

text \<open>
  The failures of the upstream history call in words: the call returns an error, or the
  response has no list for the channel, or handling the list throws (a reading whose time
  is no valid date).
\<close>

definition upstream_failed :: "string \<Rightarrow> string \<Rightarrow> history_fetch \<Rightarrow> bool" where
  "upstream_failed period channel result =
     (case result of
        FetchError msg \<Rightarrow> True
      | FetchData payload \<Rightarrow>
          (case payload (''soil_ch'' @ channel) of
             None \<Rightarrow> True
           | Some entries \<Rightarrow>
               (case downsample period (sort_key time entries) of
                  None \<Rightarrow> False
                | Some reduced \<Rightarrow> \<not> list_all (\<lambda>r. valid_date (time r * 1000)) reduced)))"

section \<open>Example data\<close>

definition example_account :: account where
  "example_account = \<lparr>acc_id = ''account1'', appKey = ''app'', apiKey = ''api'', mac = ''AA:BB''\<rparr>"

definition example_settings :: settings where
  "example_settings =
     \<lparr>names = Some [(''account1_soil_ch1'', ''Fern'')],
      colors = Some [(''account1_soil_ch1'', ''green'')],
      order = Some [''account1_soil_ch1'', ''account1_soil_ch2''],
      hidden = Some [],
      thresholds = Some [(''account1_soil_ch1'', 30, 70)]\<rparr>"

text \<open>
  A history file: one sensor with a reading 25 hours before the instant 100000000, one two
  hours before it, and two in the same calendar minute shortly before it.
\<close>

definition example_history :: "history option" where
  "example_history =
     Some [''account1_soil_ch1'' \<mapsto>
       [\<lparr>moisture = 39, timestamp = 10000000\<rparr>,
        \<lparr>moisture = 40, timestamp = 92800000\<rparr>,
        \<lparr>moisture = 41, timestamp = 99960000\<rparr>,
        \<lparr>moisture = 42, timestamp = 99970000\<rparr>]]"

text \<open>A history file whose series is not in time order (all readings within the last day).\<close>

definition unordered_history :: "history option" where
  "unordered_history =
     Some [''account1_soil_ch1'' \<mapsto>
       [\<lparr>moisture = 41, timestamp = 99000600\<rparr>,
        \<lparr>moisture = 42, timestamp = 99000500\<rparr>,
        \<lparr>moisture = 43, timestamp = 99000400\<rparr>,
        \<lparr>moisture = 44, timestamp = 99000300\<rparr>,
        \<lparr>moisture = 45, timestamp = 99000200\<rparr>,
        \<lparr>moisture = 46, timestamp = 99000100\<rparr>]]"

definition example_state :: server_state where
  "example_state =
     \<lparr>sensorCache = None, sensorCacheTime = 0,
      historyFile = example_history,
      settingsFile = Some example_settings\<rparr>"

definition example_env :: history_env where
  "example_env =
     \<lparr>now = 100000000, now_local = 100000000,
      fetchEcowittHistory = (\<lambda>account start end channel. FetchError ''rate limited'')\<rparr>"

text \<open>Two polls of \<^verbatim>\<open>/api/sensors\<close>, three seconds apart, the upstream answering with one sensor.\<close>

definition example_sensor :: sensor where
  "example_sensor =
     \<lparr>sensor_id = ''account1_soil_ch1'', sensor_accountId = ''account1'',
      sensorKey = ''Channel 1'', sensor_moisture = 43, sensor_unit = ''%'', ad = Some 180,
      sensor_timestamp = Some 99990000\<rparr>"

definition example_poll :: sensors_env where
  "example_poll =
     \<lparr>t_request = 100000000,
      fetchEcowittData = (\<lambda>account.
        \<lparr>result_accountId = acc_id account, result_error = None,
         result_sensors = [example_sensor]\<rparr>),
      t_fetched = 100000300,
      mockSensors = []\<rparr>"

definition example_poll_later :: sensors_env where
  "example_poll_later = example_poll\<lparr>t_request := 100003000\<rparr>"

section \<open>Properties of the downsampling engine\<close>

lemma slice_min: "slice xs i (min (i + n) (length xs)) = take n (drop i xs)"
  by (simp add: slice_def min_def)

lemma bucket_loop_buckets:
  assumes "0 < bucketSize"
  shows "bucket_loop readings bucketSize i reduced =
         Some (reduced @ concat (map emit_bucket (buckets bucketSize (drop i readings))))"
proof (induction "length readings - i" arbitrary: i reduced rule: less_induct)
  case less
  show ?case
  proof (cases "i < length readings")
    case True
    have "length readings - (i + bucketSize) < length readings - i"
      using True assms by arith
    from less [OF this]
    have "bucket_loop readings bucketSize (i + bucketSize)
            (reduced @ emit_bucket (take bucketSize (drop i readings))) =
          Some ((reduced @ emit_bucket (take bucketSize (drop i readings))) @
            concat (map emit_bucket (buckets bucketSize (drop (i + bucketSize) readings))))" .
    moreover have "buckets bucketSize (drop i readings) =
        take bucketSize (drop i readings) # buckets bucketSize (drop (i + bucketSize) readings)"
      using True assms by (subst buckets.simps) (simp add: add.commute)
    ultimately show ?thesis
      using True by (subst bucket_loop.simps) (simp add: slice_min)
  next
    case False
    then show ?thesis
      by (subst bucket_loop.simps) (simp add: buckets.simps)
  qed
qed

lemma maxPoints_pos: "0 < maxPoints period"
  by (simp add: maxPoints_def)

lemma bucketSize_covers:
  assumes "0 < m"
  shows "n \<le> nat \<lceil>real n / real m\<rceil> * m"
proof -
  define c where "c = nat \<lceil>real n / real m\<rceil>"
  have "(0::real) \<le> real n / real m" by simp
  then have "- 1 < real n / real m" by linarith
  then have "0 \<le> \<lceil>real n / real m\<rceil>" by (simp only: zero_le_ceiling)
  then have "real c = of_int \<lceil>real n / real m\<rceil>" by (simp add: c_def)
  moreover have "real n / real m \<le> of_int \<lceil>real n / real m\<rceil>" by (rule le_of_int_ceiling)
  ultimately have "real n / real m \<le> real c" by (simp only:)
  then have "real n \<le> real c * real m"
    using assms by (simp add: pos_divide_le_eq)
  then have "real n \<le> real (c * m)" by simp
  then have "n \<le> c * m" by (simp only: of_nat_le_iff)
  then show ?thesis by (simp only: c_def)
qed

lemma bucketSize_pos:
  assumes "0 < m" "0 < n"
  shows "0 < nat \<lceil>real n / real m\<rceil>"
  using bucketSize_covers [OF assms(1), of n] assms(2) by (cases "nat \<lceil>real n / real m\<rceil>") auto

lemma length_buckets_le:
  "0 < c \<Longrightarrow> length xs \<le> k * c \<Longrightarrow> length (buckets c xs) \<le> k"
proof (induction c xs arbitrary: k rule: buckets.induct)
  case (1 n xs)
  show ?case
  proof (cases "xs = []")
    case True
    then show ?thesis by (simp add: buckets.simps)
  next
    case False
    with "1.prems" obtain k' where k: "k = Suc k'" by (cases k) auto
    have "length (drop n xs) \<le> k' * n" using "1.prems" k by simp
    from "1.IH" [OF _ "1.prems"(1) this] False "1.prems"(1)
    have "length (buckets n (drop n xs)) \<le> k'" by simp
    then show ?thesis using False "1.prems"(1) k by (subst buckets.simps) simp
  qed
qed



lemma length_emit_bucket: "length (emit_bucket b) \<le> 2"
  by (auto simp: emit_bucket_def split: list.splits prod.splits)

lemma length_concat_emit: "length (concat (map emit_bucket bs)) \<le> 2 * length bs"
proof (induction bs)
  case Nil
  then show ?case by simp
next
  case (Cons b bs)
  then show ?case using length_emit_bucket [of b] by simp
qed

lemma downsample_buckets:
  assumes "maxPoints period < length readings"
  shows "downsample period readings =
         Some (sort_key time (concat (map emit_bucket
           (buckets (nat \<lceil>real (length readings) / real (maxPoints period)\<rceil>) readings))))"
proof -
  have "0 < length readings" using assms by arith
  then have "0 < nat \<lceil>real (length readings) / real (maxPoints period)\<rceil>"
    by (intro bucketSize_pos maxPoints_pos)
  from bucket_loop_buckets [OF this, of readings 0 "[]"] assms
  show ?thesis by (simp add: downsample_def Let_def)
qed



lemma zigzag_length: "length (zigzag t n) = n"
  by (induction n arbitrary: t) auto

lemma zigzag_ge: "x \<in> set (zigzag t n) \<Longrightarrow> t \<le> time x"
  by (induction n arbitrary: t) force+

lemma zigzag_sorted: "sorted (map time (zigzag t n))"
  by (induction n arbitrary: t) (auto dest: zigzag_ge)

lemma zigzag_emit: "even t \<Longrightarrow> concat (map emit_bucket (buckets 2 (zigzag t n))) = zigzag t n"
proof (induction n arbitrary: t rule: less_induct)
  case (less n)
  show ?case
  proof (cases n)
    case 0
    then show ?thesis by (simp add: buckets.simps)
  next
    case (Suc m)
    show ?thesis
    proof (cases m)
      case 0
      with Suc show ?thesis by (simp add: buckets.simps emit_bucket_def)
    next
      case (Suc k)
      have "even (2 + t)" using less.prems by simp
      from less.IH [of k, OF _ this] \<open>n = Suc m\<close> Suc
      have "concat (map emit_bucket (buckets 2 (zigzag (2 + t) k))) = zigzag (2 + t) k" by simp
      then show ?thesis using \<open>n = Suc m\<close> Suc less.prems
        by (subst buckets.simps) (simp add: emit_bucket_def)
    qed
  qed
qed

lemma zigzag_unchanged: "downsample ''1y'' (zigzag 0 201) = Some (zigzag 0 201)"
proof -
  have m: "maxPoints ''1y'' = 200" by (simp add: maxPoints_def)
  have "nat \<lceil>real (length (zigzag 0 201)) / real (maxPoints ''1y'')\<rceil> = 2"
    by (simp add: m zigzag_length)
  moreover have "maxPoints ''1y'' < length (zigzag 0 201)" by (simp add: m zigzag_length)
  ultimately show ?thesis
    using downsample_buckets [of "''1y''" "zigzag 0 201"]
    by (simp add: zigzag_emit sort_key_id_if_sorted zigzag_sorted)
qed

lemma zigzag_strict: "sorted_wrt (<) (map time (zigzag t n))"
proof (induction n arbitrary: t)
  case 0
  then show ?case by simp
next
  case (Suc n)
  have "\<forall>x \<in> set (zigzag (t + 1) n). t < time x"
    using zigzag_ge [of _ "t + 1" n] by force
  with Suc show ?case by simp
qed

text \<open>
  C1 (as stated, refuted). The claim: an input longer than the period's budget comes out
  with at most the budget's number of points. For period \<open>1y\<close> the budget is 200. The 201
  readings \<open>zigzag 0 201\<close>, at the strictly ascending times 0, ..., 200, fall into buckets of
  two; every full bucket holds the values 0 and 10 and emits both, the last bucket holds one
  reading: all 201 readings come out.
\<close>

theorem C1_budget_exceeded:
  "downsample ''1y'' (zigzag 0 201) = Some (zigzag 0 201) \<and>
   length (zigzag 0 201) = 201 \<and> maxPoints ''1y'' = 200 \<and>
   sorted_wrt (<) (map time (zigzag 0 201))"
  by (simp add: zigzag_unchanged zigzag_length zigzag_strict maxPoints_def)

text \<open>
  C1 (amended). For every reading sequence longer than the period's budget, the engine
  returns, and its output has at most twice the budget's number of points: there are at
  most as many buckets as the budget, and a bucket emits one or two points.
\<close>

theorem C1_output_bound:
  assumes "maxPoints period < length readings"
  shows "\<exists>out. downsample period readings = Some out \<and> length out \<le> 2 * maxPoints period"
proof -
  let ?c = "nat \<lceil>real (length readings) / real (maxPoints period)\<rceil>"
  have "0 < length readings" using assms by arith
  then have c: "0 < ?c" by (intro bucketSize_pos maxPoints_pos)
  have "length readings \<le> maxPoints period * ?c"
    using bucketSize_covers [OF maxPoints_pos, of "length readings" period] by (simp add: mult.commute)
  from length_buckets_le [OF c this]
  have "length (buckets ?c readings) \<le> maxPoints period" .
  moreover have "length (concat (map emit_bucket (buckets ?c readings))) \<le> 2 * length (buckets ?c readings)"
    by (rule length_concat_emit)
  ultimately show ?thesis
    by (simp add: downsample_buckets [OF assms])
qed

theorem C1_output_bound_witness:
  "maxPoints ''1y'' < length (zigzag 0 201) \<and>
   (\<exists>out. downsample ''1y'' (zigzag 0 201) = Some out \<and> length out \<le> 2 * maxPoints ''1y'')"
proof -
  have h: "maxPoints ''1y'' < length (zigzag 0 201)"
    by (simp add: zigzag_length maxPoints_def)
  from h C1_output_bound [OF h] show ?thesis by simp
qed



text \<open>
  The two buckets of the specification's examples: the values 50, 20, 80, 55 at increasing
  times give the reading valued 20 and then the reading valued 80; the values 50, 51 give
  one point.
\<close>

lemma emit_bucket_spike:
  "emit_bucket [\<lparr>time = 1, val = 50\<rparr>, \<lparr>time = 2, val = 20\<rparr>, \<lparr>time = 3, val = 80\<rparr>,
                \<lparr>time = 4, val = 55\<rparr>] =
   [\<lparr>time = 2, val = 20\<rparr>, \<lparr>time = 3, val = 80\<rparr>]"
  by (simp add: emit_bucket_def)

lemma emit_bucket_flat:
  "emit_bucket [\<lparr>time = 1, val = 50\<rparr>, \<lparr>time = 2, val = 51\<rparr>] = [\<lparr>time = 1, val = 50\<rparr>]"
  by (simp add: emit_bucket_def)

text \<open>
  C8. An input at or under the period's budget is returned as it is, element for element;
  so running the engine on that output returns it again. More generally, whenever an output
  of the engine is at or under the budget, running the engine on it returns it unchanged.
\<close>

theorem C8_under_budget_unchanged:
  "(length readings \<le> maxPoints period \<longrightarrow>
      downsample period readings = Some readings \<and>
      Option.bind (downsample period readings) (downsample period) = Some readings) \<and>
   (\<forall>out. downsample period readings = Some out \<and> length out \<le> maxPoints period \<longrightarrow>
      downsample period out = Some out)"
  by (simp add: downsample_def)

theorem C8_under_budget_unchanged_witness:
  "length [\<lparr>time = 1, val = 50\<rparr>, \<lparr>time = 2, val = 20\<rparr>, \<lparr>time = 3, val = 80\<rparr>] \<le> maxPoints ''24h'' \<and>
   downsample ''24h'' [\<lparr>time = 1, val = 50\<rparr>, \<lparr>time = 2, val = 20\<rparr>, \<lparr>time = 3, val = 80\<rparr>] =
     Some [\<lparr>time = 1, val = 50\<rparr>, \<lparr>time = 2, val = 20\<rparr>, \<lparr>time = 3, val = 80\<rparr>] \<and>
   Option.bind
     (downsample ''24h'' [\<lparr>time = 1, val = 50\<rparr>, \<lparr>time = 2, val = 20\<rparr>, \<lparr>time = 3, val = 80\<rparr>])
     (downsample ''24h'') =
     Some [\<lparr>time = 1, val = 50\<rparr>, \<lparr>time = 2, val = 20\<rparr>, \<lparr>time = 3, val = 80\<rparr>]"
proof -
  have h: "length [\<lparr>time = 1, val = 50\<rparr>, \<lparr>time = 2, val = 20\<rparr>, \<lparr>time = 3, val = 80\<rparr>]
             \<le> maxPoints ''24h''"
    by (simp add: maxPoints_def)
  from C8_under_budget_unchanged
    [of "[\<lparr>time = 1, val = 50\<rparr>, \<lparr>time = 2, val = 20\<rparr>, \<lparr>time = 3, val = 80\<rparr>]" "''24h''"]
  have "downsample ''24h'' [\<lparr>time = 1, val = 50\<rparr>, \<lparr>time = 2, val = 20\<rparr>, \<lparr>time = 3, val = 80\<rparr>] =
          Some [\<lparr>time = 1, val = 50\<rparr>, \<lparr>time = 2, val = 20\<rparr>, \<lparr>time = 3, val = 80\<rparr>] \<and>
        Option.bind
          (downsample ''24h'' [\<lparr>time = 1, val = 50\<rparr>, \<lparr>time = 2, val = 20\<rparr>, \<lparr>time = 3, val = 80\<rparr>])
          (downsample ''24h'') =
          Some [\<lparr>time = 1, val = 50\<rparr>, \<lparr>time = 2, val = 20\<rparr>, \<lparr>time = 3, val = 80\<rparr>]"
    using h by blast
  with h show ?thesis by (rule conjI)
qed

section \<open>Properties of the reading store\<close>

lemma slice_last_snoc:
  assumes "0 < n"
  shows "slice_last n (slice_last n xs @ [r]) = slice_last n (xs @ [r])"
proof (cases "length xs \<le> n")
  case True
  then show ?thesis by (simp add: slice_last_def)
next
  case False
  then have "length xs - n + (Suc n - n) = Suc (length xs) - n" using assms by arith
  then show ?thesis using False assms by (simp add: slice_last_def)
qed

lemma series_of_storeReading:
  "series_of (storeReading sid m t file) s =
     (if sid = s then slice_last 50000 (series_of file s @ [\<lparr>moisture = m, timestamp = t\<rparr>])
      else series_of file s)"
  by (simp add: series_of_def storeReading_def loadHistory_def Let_def slice_last_def)

lemma appended_to_snoc:
  "appended_to s (appends @ [(sid, m, t)]) =
     (if sid = s then appended_to s appends @ [\<lparr>moisture = m, timestamp = t\<rparr>]
      else appended_to s appends)"
  by (simp add: appended_to_def)

lemma storeReadings_snoc:
  "storeReadings (appends @ [(sid, m, t)]) file = storeReading sid m t (storeReadings appends file)"
  by (simp add: storeReadings_def)

lemma series_of_storeReadings:
  "series_of (storeReadings appends file) s =
     (if appended_to s appends = [] then series_of file s
      else slice_last 50000 (series_of file s @ appended_to s appends))"
proof (induction appends rule: rev_induct)
  case Nil
  then show ?case by (simp add: storeReadings_def appended_to_def)
next
  case (snoc a appends)
  obtain sid m t where a: "a = (sid, m, t)" by (cases a)
  show ?case
  proof (cases "sid = s")
    case False
    then show ?thesis
      unfolding a using snoc
      by (simp only: storeReadings_snoc series_of_storeReading appended_to_snoc if_False)
  next
    case True
    show ?thesis
    proof (cases "appended_to s appends = []")
      case True
      then show ?thesis
        unfolding a using snoc \<open>sid = s\<close>
        by (simp add: storeReadings_snoc series_of_storeReading appended_to_snoc)
    next
      case False
      then show ?thesis
        unfolding a using snoc \<open>sid = s\<close>
        by (simp add: storeReadings_snoc series_of_storeReading appended_to_snoc slice_last_snoc)
    qed
  qed
qed

text \<open>
  C2. Whatever the history file holds, after a sequence of appends of which more than 50,000
  go to one sensor (appends to other sensors may come in between), that sensor's stored
  series is exactly the last 50,000 of the readings appended to it, in the order they were
  appended, and so has length 50,000.
\<close>

theorem C2_retention:
  assumes "50000 < length (appended_to sensorId appends)"
  shows "series_of (storeReadings appends file) sensorId =
           drop (length (appended_to sensorId appends) - 50000) (appended_to sensorId appends) \<and>
         length (series_of (storeReadings appends file) sensorId) = 50000"
proof -
  have ne: "appended_to sensorId appends \<noteq> []" using assms by auto
  have "series_of (storeReadings appends file) sensorId =
        slice_last 50000 (series_of file sensorId @ appended_to sensorId appends)"
    using ne by (simp add: series_of_storeReadings)
  also have "\<dots> = drop (length (appended_to sensorId appends) - 50000) (appended_to sensorId appends)"
    using assms by (simp add: slice_last_def)
  finally show ?thesis using assms by simp
qed

theorem C2_retention_witness:
  "50000 < length (appended_to ''account1_soil_ch1'' (replicate 50001 (''account1_soil_ch1'', 42, 0))) \<and>
   length (series_of (storeReadings (replicate 50001 (''account1_soil_ch1'', 42, 0)) None)
             ''account1_soil_ch1'') = 50000"
proof -
  have h: "50000 < length (appended_to ''account1_soil_ch1''
                             (replicate 50001 (''account1_soil_ch1'', 42, 0)))"
    by (simp add: appended_to_def)
  from h C2_retention [OF h, of None] show ?thesis by simp
qed

section \<open>Properties of the settings store\<close>

text \<open>
  C9. The record that \<^verbatim>\<open>POST /api/settings\<close> saves and returns keeps, for every field the
  update does not carry, the value of the existing record as \<open>loadSettings\<close> reads it; when
  a settings file exists that is the persisted value of the field (for \<open>thresholds\<close>:
  when the persisted record has the field; an older record without it reads as the empty
  object).
\<close>

theorem C9_settings_merge:
  assumes "post_settings body s = (merged, s')"
  shows "settingsFile s' = Some merged \<and>
         (names body = None \<longrightarrow> names merged = names (loadSettings (settingsFile s))) \<and>
         (colors body = None \<longrightarrow> colors merged = colors (loadSettings (settingsFile s))) \<and>
         (order body = None \<longrightarrow> order merged = order (loadSettings (settingsFile s))) \<and>
         (hidden body = None \<longrightarrow> hidden merged = hidden (loadSettings (settingsFile s))) \<and>
         (thresholds body = None \<longrightarrow>
            thresholds merged = thresholds (loadSettings (settingsFile s))) \<and>
         (\<forall>prior. settingsFile s = Some prior \<longrightarrow>
            (names body = None \<longrightarrow> names merged = names prior) \<and>
            (colors body = None \<longrightarrow> colors merged = colors prior) \<and>
            (order body = None \<longrightarrow> order merged = order prior) \<and>
            (hidden body = None \<longrightarrow> hidden merged = hidden prior) \<and>
            (thresholds body = None \<longrightarrow> thresholds prior \<noteq> None \<longrightarrow>
               thresholds merged = thresholds prior))"
  using assms by (auto simp: post_settings_def loadSettings_def Let_def)

theorem C9_settings_merge_witness:
  "fst (post_settings
          \<lparr>names = None, colors = None, order = None,
           hidden = Some [''account1_soil_ch2''], thresholds = None\<rparr> example_state) =
     example_settings\<lparr>hidden := Some [''account1_soil_ch2'']\<rparr> \<and>
   settingsFile (snd (post_settings
          \<lparr>names = None, colors = None, order = None,
           hidden = Some [''account1_soil_ch2''], thresholds = None\<rparr> example_state)) =
     Some (example_settings\<lparr>hidden := Some [''account1_soil_ch2'']\<rparr>)"
  using C9_settings_merge
    [of "\<lparr>names = None, colors = None, order = None,
          hidden = Some [''account1_soil_ch2''], thresholds = None\<rparr>" example_state
        "fst (post_settings
          \<lparr>names = None, colors = None, order = None,
           hidden = Some [''account1_soil_ch2''], thresholds = None\<rparr> example_state)"
        "snd (post_settings
          \<lparr>names = None, colors = None, order = None,
           hidden = Some [''account1_soil_ch2''], thresholds = None\<rparr> example_state)"]
  by (simp add: post_settings_def loadSettings_def example_state_def example_settings_def Let_def)

section \<open>Properties of the history endpoint\<close>

lemma not_digit_underscore: "\<not> is_digit CHR ''_''"
  by (simp add: is_digit_def)

lemma takeWhile_all: "list_all P xs \<Longrightarrow> \<not> P y \<Longrightarrow> takeWhile P (xs @ y # ys) = xs"
  by (induction xs) auto

lemma dropWhile_all: "list_all P xs \<Longrightarrow> \<not> P y \<Longrightarrow> dropWhile P (xs @ y # ys) = y # ys"
  by (induction xs) auto

lemma match_sensorId_pattern:
  assumes "sensorId_pattern sensorId ds1 ds2"
  shows "match_sensorId sensorId = Some (''account'' @ ds1, ds2)"
proof -
  from assms have sid: "sensorId = ''account'' @ ds1 @ ''_soil_ch'' @ ds2"
    and d: "ds1 \<noteq> []" "ds2 \<noteq> []" "list_all is_digit ds1" "list_all is_digit ds2"
    by (simp_all add: sensorId_pattern_def)
  define tail where "tail = ''_soil_ch'' @ ds2"
  have p1: "strip_prefix ''account'' sensorId = Some (ds1 @ tail)"
    by (simp add: sid strip_prefix_def tail_def)
  have t: "takeWhile is_digit (ds1 @ tail) = ds1"
    unfolding tail_def
    using takeWhile_all [OF d(3) not_digit_underscore, of "''soil_ch'' @ ds2"] by simp
  have dr: "dropWhile is_digit (ds1 @ tail) = tail"
    unfolding tail_def
    using dropWhile_all [OF d(3) not_digit_underscore, of "''soil_ch'' @ ds2"] by simp
  have p2: "strip_prefix ''_soil_ch'' tail = Some ds2"
    by (simp add: strip_prefix_def tail_def)
  show ?thesis
    unfolding match_sensorId_def p1 using d by (simp add: t dr p2 Let_def)
qed

lemma strip_prefix_Some: "strip_prefix p s = Some r \<Longrightarrow> s = p @ r"
  by (auto simp: strip_prefix_def split: if_splits) (metis append_take_drop_id)

lemma match_sensorId_Some:
  assumes "match_sensorId sensorId = Some (accountId, channel)"
  shows "\<exists>ds1. sensorId_pattern sensorId ds1 channel \<and> accountId = ''account'' @ ds1"
proof -
  from assms obtain r1 where r1: "strip_prefix ''account'' sensorId = Some r1"
    by (auto simp: match_sensorId_def split: option.splits)
  let ?ds1 = "takeWhile is_digit r1"
  from assms r1 have ne: "?ds1 \<noteq> []"
    by (auto simp: match_sensorId_def Let_def split: option.splits if_splits)
  from assms r1 ne obtain ds2 where
    ds2: "strip_prefix ''_soil_ch'' (dropWhile is_digit r1) = Some ds2"
    by (auto simp: match_sensorId_def Let_def split: option.splits if_splits)
  from assms r1 ne ds2 have res: "ds2 \<noteq> []" "list_all is_digit ds2"
    "accountId = ''account'' @ ?ds1" "channel = ds2"
    by (auto simp: match_sensorId_def Let_def split: option.splits if_splits)
  have "r1 = ?ds1 @ dropWhile is_digit r1" by simp
  also have "dropWhile is_digit r1 = ''_soil_ch'' @ ds2" using ds2 by (rule strip_prefix_Some)
  finally have "sensorId = ''account'' @ ?ds1 @ ''_soil_ch'' @ ds2"
    using strip_prefix_Some [OF r1] by simp
  moreover have "list_all is_digit ?ds1"
    by (simp add: list_all_iff) (meson set_takeWhileD)
  ultimately have "sensorId_pattern sensorId ?ds1 channel"
    using ne res by (simp add: sensorId_pattern_def)
  with res(3) show ?thesis by blast
qed

text \<open>
  C10. A request whose sensor id does not have the form \<open>account<digits>_soil_ch<digits>\<close>,
  or whose account id is not the id of a configured account, is answered with an empty
  list of points and an error message; the handler makes no upstream call and no read of
  the reading store (no effect), and leaves the state as it was.
\<close>

theorem C10_invalid_sensor:
  assumes "(\<forall>ds1 ds2. \<not> sensorId_pattern sensorId ds1 ds2) \<or>
           (\<forall>ds1 ds2. sensorId_pattern sensorId ds1 ds2 \<longrightarrow>
                        ''account'' @ ds1 \<notin> acc_id ` set accounts)"
  shows "\<exists>period msg.
           history_handler minuteKey accounts e s sensorId periodParam =
             Some (\<lparr>res_sensorId = sensorId, res_period = period, res_data = [],
                     res_source = None, res_error = Some msg\<rparr>, s, [])"
proof (cases "match_sensorId sensorId")
  case None
  then show ?thesis by (simp add: history_handler_def Let_def)
next
  case (Some m)
  obtain accountId channel where m: "m = (accountId, channel)" by (cases m)
  from match_sensorId_Some [OF Some [unfolded m]] obtain ds1 where
    p: "sensorId_pattern sensorId ds1 channel" and a: "accountId = ''account'' @ ds1" by blast
  from assms p have "''account'' @ ds1 \<notin> acc_id ` set accounts" by auto
  with a have "accountId \<notin> acc_id ` set accounts" by simp
  then have "find (\<lambda>a. acc_id a = accountId) accounts = None"
    by (auto simp: find_None_iff)
  then show ?thesis using Some m by (simp add: history_handler_def Let_def)
qed

theorem C10_invalid_sensor_witness:
  "(\<exists>period msg.
      history_handler (\<lambda>t. t div 60000) [example_account] example_env example_state
        ''plant-7'' None =
      Some (\<lparr>res_sensorId = ''plant-7'', res_period = period, res_data = [],
              res_source = None, res_error = Some msg\<rparr>, example_state, [])) \<and>
   (\<exists>period msg.
      history_handler (\<lambda>t. t div 60000) [example_account] example_env example_state
        ''account9_soil_ch1'' (Some ''7d'') =
      Some (\<lparr>res_sensorId = ''account9_soil_ch1'', res_period = period, res_data = [],
              res_source = None, res_error = Some msg\<rparr>, example_state, []))"
proof -
  have h1: "\<forall>ds1 ds2. \<not> sensorId_pattern ''plant-7'' ds1 ds2"
    by (simp add: sensorId_pattern_def)
  have m: "match_sensorId ''account9_soil_ch1'' = Some (''account9'', ''1'')"
    by (simp add: match_sensorId_def strip_prefix_def is_digit_def Let_def)
  have h2: "\<forall>ds1 ds2. sensorId_pattern ''account9_soil_ch1'' ds1 ds2 \<longrightarrow>
              ''account'' @ ds1 \<notin> acc_id ` set [example_account]"
  proof (intro allI impI)
    fix ds1 ds2 assume "sensorId_pattern ''account9_soil_ch1'' ds1 ds2"
    from match_sensorId_pattern [OF this] m have "''account'' @ ds1 = ''account9''" by simp
    then show "''account'' @ ds1 \<notin> acc_id ` set [example_account]"
      by (simp add: example_account_def)
  qed
  show ?thesis
    using C10_invalid_sensor [OF disjI1, OF h1] C10_invalid_sensor [OF disjI2, OF h2]
    by blast
qed

section \<open>Properties of the local query\<close>

lemma set_filter_enum: "set (map snd (filter P (enumerate n xs))) \<subseteq> set xs"
  by (induction xs arbitrary: n) auto

lemma sorted_filter_enum:
  "sorted (map f xs) \<Longrightarrow> sorted (map f (map snd (filter P (enumerate n xs))))"
proof (induction xs arbitrary: n)
  case Nil
  then show ?case by simp
next
  case (Cons x xs)
  have "\<forall>y \<in> set (map snd (filter P (enumerate (Suc n) xs))). f x \<le> f y"
    using Cons.prems set_filter_enum [of P "Suc n" xs] by auto
  then show ?case using Cons by auto
qed

lemma set_filter_index: "set (filter_index k xs) \<subseteq> set xs"
  unfolding filter_index_def by (rule set_filter_enum)

lemma sorted_filter_index: "sorted (map f xs) \<Longrightarrow> sorted (map f (filter_index k xs))"
  unfolding filter_index_def by (rule sorted_filter_enum)

lemma filter_index_1: "filter_index (Suc 0) xs = xs"
proof -
  have "map snd (filter (\<lambda>(i, x). True) (enumerate n xs)) = xs" for n
    by (induction xs arbitrary: n) auto
  then show ?thesis by (simp add: filter_index_def)
qed

lemma filter_enum_shift:
  "map snd (filter (\<lambda>(i, x). i mod k = 0) (enumerate (n + k) xs)) =
   map snd (filter (\<lambda>(i, x). i mod k = 0) (enumerate n xs))"
proof (induction xs arbitrary: n)
  case Nil
  then show ?case by simp
next
  case (Cons x xs)
  from Cons [of "Suc n"] show ?case by simp
qed

lemma filter_enum_none:
  "0 < n \<Longrightarrow> n + length xs \<le> k \<Longrightarrow>
   map snd (filter (\<lambda>(i, x). i mod k = 0) (enumerate n xs)) = []"
proof (induction xs arbitrary: n)
  case Nil
  then show ?case by simp
next
  case (Cons x xs)
  from Cons.prems have "n mod k \<noteq> 0" by simp
  moreover from Cons.prems Cons.IH [of "Suc n"]
  have "map snd (filter (\<lambda>(i, x). i mod k = 0) (enumerate (Suc n) xs)) = []" by simp
  ultimately show ?case by simp
qed

lemma filter_index_step:
  assumes "0 < k" "xs \<noteq> []"
  shows "filter_index k xs = hd xs # filter_index k (drop k xs)"
proof -
  from assms obtain x rest where xs: "xs = x # rest" by (cases xs) auto
  have split: "enumerate 0 xs = (0, x) # enumerate 1 (take (k - 1) rest) @ enumerate k (drop (k - 1) rest)"
  proof -
    have "rest = take (k - 1) rest @ drop (k - 1) rest" by simp
    then have "enumerate 1 rest = enumerate 1 (take (k - 1) rest) @ enumerate (1 + length (take (k - 1) rest)) (drop (k - 1) rest)"
      by (metis enumerate_append_eq)
    moreover have "enumerate (1 + length (take (k - 1) rest)) (drop (k - 1) rest) = enumerate k (drop (k - 1) rest)"
    proof (cases "k - 1 \<le> length rest")
      case True
      then show ?thesis using assms by (simp add: min_def)
    next
      case False
      then show ?thesis by simp
    qed
    ultimately show ?thesis by (simp add: xs)
  qed
  have a: "map snd (filter (\<lambda>(i, x). i mod k = 0) (enumerate 1 (take (k - 1) rest))) = []"
    by (rule filter_enum_none) (use assms in auto)
  have b: "map snd (filter (\<lambda>(i, x). i mod k = 0) (enumerate k (drop (k - 1) rest))) =
           filter_index k (drop (k - 1) rest)"
    using filter_enum_shift [of k 0 "drop (k - 1) rest"] by (simp add: filter_index_def)
  have "drop k xs = drop (k - 1) rest" using assms by (cases k) (auto simp: xs)
  then show ?thesis
    unfolding filter_index_def [of k xs] split using a b by (simp add: xs)
qed

lemma filter_index_nth:
  assumes "0 < k"
  shows "filter_index k xs = map (\<lambda>j. xs ! (j * k)) [0..<(length xs + k - 1) div k]"
proof (induction "length xs" arbitrary: xs rule: less_induct)
  case less
  show ?case
  proof (cases "xs = []")
    case True
    then show ?thesis using assms by (simp add: filter_index_def)
  next
    case False
    let ?ys = "drop k xs"
    have len: "length ?ys < length xs" using False assms by simp
    have IH: "filter_index k ?ys = map (\<lambda>j. ?ys ! (j * k)) [0..<(length ?ys + k - 1) div k]"
      by (rule less [OF len])
    have cnt: "(length xs + k - 1) div k = Suc ((length ?ys + k - 1) div k)"
    proof (cases "length xs \<le> k")
      case True
      have pos: "0 < length xs" using False by simp
      have "k * 1 \<le> length xs + k - 1" "length xs + k - 1 < k * Suc 1"
        using pos True assms by arith+
      then have "(length xs + k - 1) div k = 1"
        by (rule div_nat_eqI)
      moreover have "(length ?ys + k - 1) div k = 0" using True assms by simp
      ultimately show ?thesis by simp
    next
      case False
      define m where "m = length ?ys + k - 1"
      have e: "length xs + k - 1 = m + k" using False assms by (simp add: m_def)
      have "(m + k) div k = Suc (m div k)" using assms by simp
      then show ?thesis by (simp only: e m_def)
    qed
    have nth: "?ys ! (j * k) = xs ! (Suc j * k)" if "j < (length ?ys + k - 1) div k" for j
    proof -
      have "k \<le> length xs"
      proof (rule ccontr)
        assume "\<not> k \<le> length xs"
        then have "(length ?ys + k - 1) div k = 0" using assms by simp
        with that show False by simp
      qed
      then show ?thesis by (simp add: add.commute)
    qed
    have hd: "hd xs = xs ! (0 * k)" using False by (simp add: hd_conv_nth)
    have "map (\<lambda>j. xs ! (j * k)) [0..<Suc ((length ?ys + k - 1) div k)] =
          xs ! (0 * k) # map (\<lambda>j. xs ! (Suc j * k)) [0..<(length ?ys + k - 1) div k]"
      by (simp only: map_upt_Suc)
    also have "map (\<lambda>j. xs ! (Suc j * k)) [0..<(length ?ys + k - 1) div k] =
               map (\<lambda>j. ?ys ! (j * k)) [0..<(length ?ys + k - 1) div k]"
      by (rule map_cong) (simp_all add: nth)
    finally show ?thesis
      unfolding filter_index_step [OF assms False] IH cnt hd by simp
  qed
qed

lemma map_of_seen_loop:
  "map_of (seen_loop key rs seen) k =
     (case map_of seen k of
        Some v \<Rightarrow> Some v
      | None \<Rightarrow> find (\<lambda>r. key (timestamp r) = k) rs)"
proof (induction rs arbitrary: seen)
  case Nil
  then show ?case by (simp split: option.splits)
next
  case (Cons r rs)
  show ?case
    by (simp add: Cons map_add_def split: option.splits)
qed

lemma distinct_seen_loop:
  "distinct (map fst seen) \<Longrightarrow> distinct (map fst (seen_loop key rs seen))"
proof (induction rs arbitrary: seen)
  case Nil
  then show ?case by simp
next
  case (Cons r rs)
  have "distinct (map fst (if map_of seen (key (timestamp r)) = None
                           then seen @ [(key (timestamp r), r)] else seen))"
    using Cons.prems by (auto simp: map_of_eq_None_iff)
  from Cons.IH [OF this] show ?case by simp
qed

lemma keys_seen_loop:
  "\<forall>(k, r) \<in> set seen. k = key (timestamp r) \<Longrightarrow>
   \<forall>(k, r) \<in> set (seen_loop key rs seen). k = key (timestamp r)"
proof (induction rs arbitrary: seen)
  case Nil
  then show ?case by simp
next
  case (Cons r rs)
  have "\<forall>(k, r') \<in> set (if map_of seen (key (timestamp r)) = None
                           then seen @ [(key (timestamp r), r)] else seen).
          k = key (timestamp r')"
    using Cons.prems by auto
  from Cons.IH [OF this] show ?case by simp
qed

lemma dedup_set:
  "set (map snd (seen_loop key rs [])) =
   {r. \<exists>k. find (\<lambda>x. key (timestamp x) = k) rs = Some r}"
proof -
  let ?res = "seen_loop key rs []"
  have d: "distinct (map fst ?res)" by (rule distinct_seen_loop) simp
  have "set (map snd ?res) = ran (map_of ?res)" using ran_distinct [OF d] by simp
  also have "\<dots> = {r. \<exists>k. find (\<lambda>x. key (timestamp x) = k) rs = Some r}"
    by (simp add: ran_def map_of_seen_loop)
  finally show ?thesis .
qed

lemma dedup_distinct:
  "distinct (map (\<lambda>r. key (timestamp r)) (map snd (seen_loop key rs [])))"
proof -
  let ?res = "seen_loop key rs []"
  have d: "distinct (map fst ?res)" by (rule distinct_seen_loop) simp
  have ks: "\<forall>(k, r) \<in> set ?res. k = key (timestamp r)" by (rule keys_seen_loop) simp
  have eq: "map (\<lambda>p. key (timestamp (snd p))) ?res = map fst ?res"
    by (rule map_cong) (use ks in auto)
  have "map (\<lambda>r. key (timestamp r)) (map snd ?res) = map fst ?res"
    by (simp only: map_map comp_def eq)
  then show ?thesis using d by (simp only:)
qed

lemma distinct_map_insort:
  "distinct (map g (insort_key f x xs)) \<longleftrightarrow> g x \<notin> g ` set xs \<and> distinct (map g xs)"
  by (induction xs) (auto simp: set_insort_key)

lemma distinct_map_sort: "distinct (map g (sort_key f xs)) \<longleftrightarrow> distinct (map g xs)"
  by (induction xs) (auto simp: distinct_map_insort)

lemma find_in_set: "find P xs = Some x \<Longrightarrow> x \<in> set xs"
  by (induction xs) (auto split: if_splits)

lemma getHistory_1h:
  "getHistory key t file sensorId ''1h'' =
     sort_key timestamp (map snd (seen_loop key
       (window (t - 24 * 60 * 60 * 1000) (series_of file sensorId)) []))"
  by (simp add: getHistory_def Let_def skipFactor_def cutoffTime_def filter_index_1 window_def)

lemma getHistory_other:
  "period \<noteq> ''1h'' \<Longrightarrow>
   getHistory key t file sensorId period =
     filter_index (skipFactor period) (window (cutoffTime period t) (series_of file sensorId))"
  by (simp add: getHistory_def Let_def window_def filter_index_def)

lemma skipFactor_pos: "0 < skipFactor period"
  by (simp add: skipFactor_def)

text \<open>
  C4 (as stated, refuted). The claim: the local query returns all retained readings at or
  after the cutoff, in ascending time order, also for a series stored out of order. For
  period \<open>24h\<close> the query keeps every fifth reading of the stored order and does not sort:
  of six stored readings of the last day, in descending time order, it returns the first
  and the sixth, the later one first.
\<close>

theorem C4_not_all_not_sorted:
  "getHistory (\<lambda>t. t div 60000) 100000000 unordered_history ''account1_soil_ch1'' ''24h'' =
     [\<lparr>moisture = 41, timestamp = 99000600\<rparr>, \<lparr>moisture = 46, timestamp = 99000100\<rparr>] \<and>
   series_of unordered_history ''account1_soil_ch1'' =
     [\<lparr>moisture = 41, timestamp = 99000600\<rparr>, \<lparr>moisture = 42, timestamp = 99000500\<rparr>,
      \<lparr>moisture = 43, timestamp = 99000400\<rparr>, \<lparr>moisture = 44, timestamp = 99000300\<rparr>,
      \<lparr>moisture = 45, timestamp = 99000200\<rparr>, \<lparr>moisture = 46, timestamp = 99000100\<rparr>] \<and>
   cutoffTime ''24h'' 100000000 = 13600000"
  by (simp add: getHistory_def series_of_def loadHistory_def unordered_history_def
      cutoffTime_def skipFactor_def filter_index_def Let_def)

lemma getHistory_hourly:
  "set (getHistory key t file sensorId ''1h'') \<subseteq>
     {r \<in> set (series_of file sensorId). t - 24 * 60 * 60 * 1000 \<le> timestamp r} \<and>
   set (getHistory key t file sensorId ''1h'') =
     {r. \<exists>k. find (\<lambda>x. key (timestamp x) = k)
                (window (t - 24 * 60 * 60 * 1000) (series_of file sensorId)) = Some r} \<and>
   distinct (map (\<lambda>r. key (timestamp r)) (getHistory key t file sensorId ''1h'')) \<and>
   sorted (map timestamp (getHistory key t file sensorId ''1h''))"
proof -
  let ?w = "window (t - 24 * 60 * 60 * 1000) (series_of file sensorId)"
  have g: "getHistory key t file sensorId ''1h'' = sort_key timestamp (map snd (seen_loop key ?w []))"
    by (rule getHistory_1h)
  have s: "set (getHistory key t file sensorId ''1h'') =
           {r. \<exists>k. find (\<lambda>x. key (timestamp x) = k) ?w = Some r}"
    unfolding g by (simp only: set_sort dedup_set)
  have sub: "set (getHistory key t file sensorId ''1h'') \<subseteq>
             {r \<in> set (series_of file sensorId). t - 24 * 60 * 60 * 1000 \<le> timestamp r}"
    unfolding s using find_in_set by (fastforce simp: window_def)
  have srt: "sorted (map timestamp (getHistory key t file sensorId ''1h''))"
    unfolding g by (rule sorted_sort_key)
  have dst: "distinct (map (\<lambda>r. key (timestamp r)) (getHistory key t file sensorId ''1h''))"
    unfolding g by (simp only: distinct_map_sort dedup_distinct)
  show ?thesis using s sub srt dst by (intro conjI)
qed

text \<open>
  C4 (amended). For every sensor and period the local query returns only retained readings
  with a timestamp at or after the period's cutoff instant. For a period other than \<open>1h\<close>
  it returns one reading for every \<open>k\<close> of them, \<open>k\<close> the period's skip factor (5 for 24h,
  60 for 7d, 360 for 30d, 1440 for 1y, 1 for any other period). When the stored series is
  in ascending time order, the result is in ascending time order, and for a period other
  than \<open>1h\<close> it is made of the readings at positions \<open>0, k, 2k, ...\<close> of those at or after
  the cutoff. For period \<open>1h\<close> the result is always in ascending time order and holds, for
  every calendar minute, the first stored of the readings at or after the cutoff.
\<close>

theorem C4_local_query:
  "set (getHistory key t file sensorId period) \<subseteq>
     {r \<in> set (series_of file sensorId). cutoffTime period t \<le> timestamp r} \<and>
   (period \<noteq> ''1h'' \<longrightarrow>
      length (getHistory key t file sensorId period) =
        (length (window (cutoffTime period t) (series_of file sensorId)) + skipFactor period - 1)
          div skipFactor period) \<and>
   (sorted (map timestamp (series_of file sensorId)) \<longrightarrow>
      sorted (map timestamp (getHistory key t file sensorId period)) \<and>
      (period \<noteq> ''1h'' \<longrightarrow>
         getHistory key t file sensorId period =
           map (\<lambda>j. window (cutoffTime period t) (series_of file sensorId) ! (j * skipFactor period))
             [0..<(length (window (cutoffTime period t) (series_of file sensorId))
                    + skipFactor period - 1) div skipFactor period])) \<and>
   (period = ''1h'' \<longrightarrow>
      sorted (map timestamp (getHistory key t file sensorId period)) \<and>
      distinct (map (\<lambda>r. key (timestamp r)) (getHistory key t file sensorId period)) \<and>
      set (getHistory key t file sensorId period) =
        {r. \<exists>k. find (\<lambda>x. key (timestamp x) = k)
                   (window (cutoffTime period t) (series_of file sensorId)) = Some r})"
proof (cases "period = ''1h''")
  case True
  let ?w = "window (t - 24 * 60 * 60 * 1000) (series_of file sensorId)"
  have c: "cutoffTime ''1h'' t = t - 24 * 60 * 60 * 1000" by (simp add: cutoffTime_def)
  note h = getHistory_hourly [of key t "file" sensorId]
  note sub = h [THEN conjunct1]
  note s = h [THEN conjunct2, THEN conjunct1]
  note dst = h [THEN conjunct2, THEN conjunct2, THEN conjunct1]
  note srt = h [THEN conjunct2, THEN conjunct2, THEN conjunct2]
  show ?thesis
    unfolding True c
  proof (intro conjI impI)
    show "set (getHistory key t file sensorId ''1h'') \<subseteq>
          {r \<in> set (series_of file sensorId). t - 24 * 60 * 60 * 1000 \<le> timestamp r}"
      by (rule sub)
    show "sorted (map timestamp (getHistory key t file sensorId ''1h''))" by (rule srt)
    show "sorted (map timestamp (getHistory key t file sensorId ''1h''))" by (rule srt)
    show "distinct (map (\<lambda>r. key (timestamp r)) (getHistory key t file sensorId ''1h''))"
      by (rule dst)
    show "set (getHistory key t file sensorId ''1h'') =
          {r. \<exists>k. find (\<lambda>x. key (timestamp x) = k) ?w = Some r}"
      by (rule s)
  qed simp_all
next
  case False
  let ?w = "window (cutoffTime period t) (series_of file sensorId)"
  have g: "getHistory key t file sensorId period = filter_index (skipFactor period) ?w"
    by (rule getHistory_other [OF False])
  have n: "filter_index (skipFactor period) ?w =
           map (\<lambda>j. ?w ! (j * skipFactor period))
             [0..<(length ?w + skipFactor period - 1) div skipFactor period]"
    by (rule filter_index_nth [OF skipFactor_pos])
  have sub: "set (getHistory key t file sensorId period) \<subseteq>
             {r \<in> set (series_of file sensorId). cutoffTime period t \<le> timestamp r}"
    unfolding g using set_filter_index [of "skipFactor period" ?w] by (auto simp: window_def)
  have len: "length (getHistory key t file sensorId period) =
             (length ?w + skipFactor period - 1) div skipFactor period"
    unfolding g by (subst n) simp
  have srt: "sorted (map timestamp (getHistory key t file sensorId period))"
    if "sorted (map timestamp (series_of file sensorId))"
  proof -
    have "sorted (map timestamp ?w)" unfolding window_def using that by (simp add: sorted_filter)
    then show ?thesis unfolding g by (rule sorted_filter_index)
  qed
  have eq: "getHistory key t file sensorId period =
            map (\<lambda>j. ?w ! (j * skipFactor period))
              [0..<(length ?w + skipFactor period - 1) div skipFactor period]"
    by (simp only: g n)
  show ?thesis
  proof (intro conjI impI)
    show "set (getHistory key t file sensorId period) \<subseteq>
          {r \<in> set (series_of file sensorId). cutoffTime period t \<le> timestamp r}"
      by (rule sub)
    show "length (getHistory key t file sensorId period) =
          (length ?w + skipFactor period - 1) div skipFactor period"
      by (rule len)
    show "sorted (map timestamp (getHistory key t file sensorId period))"
      if "sorted (map timestamp (series_of file sensorId))"
      by (rule srt [OF that])
    show "getHistory key t file sensorId period =
            map (\<lambda>j. ?w ! (j * skipFactor period))
              [0..<(length ?w + skipFactor period - 1) div skipFactor period]"
      by (rule eq)
  qed (use False in simp_all)
qed

lemma example_series:
  "series_of example_history ''account1_soil_ch1'' =
     [\<lparr>moisture = 39, timestamp = 10000000\<rparr>, \<lparr>moisture = 40, timestamp = 92800000\<rparr>,
      \<lparr>moisture = 41, timestamp = 99960000\<rparr>, \<lparr>moisture = 42, timestamp = 99970000\<rparr>]"
  by (simp add: series_of_def loadHistory_def example_history_def)

lemma example_getHistory_1h:
  "getHistory (\<lambda>t. t div 60000) 100000000 example_history ''account1_soil_ch1'' ''1h'' =
     [\<lparr>moisture = 40, timestamp = 92800000\<rparr>, \<lparr>moisture = 41, timestamp = 99960000\<rparr>]"
  by (simp add: getHistory_1h example_series window_def)

lemma example_getHistory_24h:
  "getHistory (\<lambda>t. t div 60000) 100000000 example_history ''account1_soil_ch1'' ''24h'' =
     [\<lparr>moisture = 40, timestamp = 92800000\<rparr>]"
  by (simp add: getHistory_other example_series window_def cutoffTime_def skipFactor_def
      filter_index_def)

lemma example_pattern: "sensorId_pattern ''account1_soil_ch1'' ''1'' ''1''"
  by (simp add: sensorId_pattern_def is_digit_def)

theorem C4_local_query_witness:
  "sorted (map timestamp (series_of example_history ''account1_soil_ch1'')) \<and>
   sorted (map timestamp
     (getHistory (\<lambda>t. t div 60000) 100000000 example_history ''account1_soil_ch1'' ''24h'')) \<and>
   length (getHistory (\<lambda>t. t div 60000) 100000000 example_history ''account1_soil_ch1'' ''24h'')
     = 1 \<and>
   distinct (map (\<lambda>r. timestamp r div 60000)
     (getHistory (\<lambda>t. t div 60000) 100000000 example_history ''account1_soil_ch1'' ''1h''))"
  using C4_local_query [of "\<lambda>t. t div 60000" 100000000 example_history "''account1_soil_ch1''" "''24h''"]
    C4_local_query [of "\<lambda>t. t div 60000" 100000000 example_history "''account1_soil_ch1''" "''1h''"]
  by (simp add: example_series example_getHistory_24h example_getHistory_1h)

text \<open>
  C6 (as stated, refuted). The claim: a request for period \<open>1h\<close> is served from the
  readings of the trailing 60 minutes. The handler serves what \<open>getHistory\<close> returns for
  \<open>1h\<close>, whose cutoff is 24 hours back: at the instant 100000000 a reading stored two
  hours earlier (92800000) is in the answer.
\<close>

theorem C6_not_trailing_hour:
  "history_handler (\<lambda>t. t div 60000) [example_account] example_env example_state
     ''account1_soil_ch1'' (Some ''1h'') =
     Some (\<lparr>res_sensorId = ''account1_soil_ch1'', res_period = ''1h'',
             res_data = [\<lparr>moisture = 40, timestamp = 92800000\<rparr>,
                         \<lparr>moisture = 41, timestamp = 99960000\<rparr>],
             res_source = Some ''local'', res_error = None\<rparr>,
           example_state, [ReadStore ''account1_soil_ch1'' ''1h'']) \<and>
   now_local example_env = 100000000 \<and>
   (92800000 :: int) < 100000000 - 60 * 60 * 1000"
proof -
  have "match_sensorId ''account1_soil_ch1'' = Some (''account1'', ''1'')"
    using match_sensorId_pattern [OF example_pattern] by simp
  then show ?thesis
    by (simp add: history_handler_def local_response_def example_account_def example_env_def
        example_state_def example_getHistory_1h Let_def)
qed

text \<open>
  C6 (amended). For every request with period \<open>1h\<close> whose sensor id has the required form
  and names a configured account, the handler makes no upstream call (its one effect is
  the read of the reading store) and answers, tagged \<open>local\<close>, with retained readings of
  the trailing 24 hours: for every calendar minute the first stored of them, no two of one
  minute, sorted ascending by time.
\<close>

theorem C6_hourly_local:
  assumes "sensorId_pattern sensorId ds1 ds2" and "''account'' @ ds1 \<in> acc_id ` set accounts"
  shows "\<exists>out.
           history_handler minuteKey accounts e s sensorId (Some ''1h'') =
             Some (\<lparr>res_sensorId = sensorId, res_period = ''1h'', res_data = out,
                     res_source = Some ''local'', res_error = None\<rparr>,
                   s, [ReadStore sensorId ''1h'']) \<and>
           set out \<subseteq> {r \<in> set (series_of (historyFile s) sensorId).
                          now_local e - 24 * 60 * 60 * 1000 \<le> timestamp r} \<and>
           set out = {r. \<exists>k. find (\<lambda>x. minuteKey (timestamp x) = k)
                               (window (now_local e - 24 * 60 * 60 * 1000)
                                  (series_of (historyFile s) sensorId)) = Some r} \<and>
           distinct (map (\<lambda>r. minuteKey (timestamp r)) out) \<and>
           sorted (map timestamp out)"
proof -
  have m: "match_sensorId sensorId = Some (''account'' @ ds1, ds2)"
    by (rule match_sensorId_pattern [OF assms(1)])
  from assms(2) obtain account where
    f: "find (\<lambda>a. acc_id a = ''account'' @ ds1) accounts = Some account"
    by (cases "find (\<lambda>a. acc_id a = ''account'' @ ds1) accounts") (auto simp: find_None_iff)
  have h: "history_handler minuteKey accounts e s sensorId (Some ''1h'') =
           Some (\<lparr>res_sensorId = sensorId, res_period = ''1h'',
                   res_data = getHistory minuteKey (now_local e) (historyFile s) sensorId ''1h'',
                   res_source = Some ''local'', res_error = None\<rparr>,
                 s, [ReadStore sensorId ''1h''])"
    using f by (simp add: history_handler_def m local_response_def Let_def)
  have c: "cutoffTime ''1h'' (now_local e) = now_local e - 24 * 60 * 60 * 1000"
    by (simp add: cutoffTime_def)
  from getHistory_hourly [of minuteKey "now_local e" "historyFile s" sensorId]
  show ?thesis unfolding h c by blast
qed

theorem C6_hourly_local_witness:
  "\<exists>out.
     history_handler (\<lambda>t. t div 60000) [example_account] example_env example_state
       ''account1_soil_ch1'' (Some ''1h'') =
       Some (\<lparr>res_sensorId = ''account1_soil_ch1'', res_period = ''1h'', res_data = out,
               res_source = Some ''local'', res_error = None\<rparr>,
             example_state, [ReadStore ''account1_soil_ch1'' ''1h'']) \<and>
     set out \<subseteq> {r \<in> set (series_of (historyFile example_state) ''account1_soil_ch1'').
                    now_local example_env - 24 * 60 * 60 * 1000 \<le> timestamp r} \<and>
     set out = {r. \<exists>k. find (\<lambda>x. timestamp x div 60000 = k)
                         (window (now_local example_env - 24 * 60 * 60 * 1000)
                            (series_of (historyFile example_state) ''account1_soil_ch1''))
                       = Some r} \<and>
     distinct (map (\<lambda>r. timestamp r div 60000) out) \<and>
     sorted (map timestamp out)"
proof -
  have a: "''account'' @ ''1'' \<in> acc_id ` set [example_account]"
    by (simp add: example_account_def)
  show ?thesis by (rule C6_hourly_local [OF example_pattern a])
qed

text \<open>
  C5. For every request with a period other than \<open>1h\<close> that reaches the upstream call (the
  sensor id has the required form and names a configured account): if the call returns an
  error, or the response has no list for the channel, or handling the list throws, the
  handler answers with a JSON body whose points are what \<open>getHistory\<close> returns for that
  sensor and period, tagged source \<open>local\<close> (with the exception's message attached in the
  last case); its effects are the upstream call and the read of the store, and the state is
  as it was.
\<close>

theorem C5_local_fallback:
  assumes "sensorId_pattern sensorId ds1 channel"
    and "find (\<lambda>a. acc_id a = ''account'' @ ds1) accounts = Some account"
    and "period = (case periodParam of None \<Rightarrow> ''24h'' | Some p \<Rightarrow> p)"
    and "period \<noteq> ''1h''"
    and "upstream_failed period channel
           (fetchEcowittHistory e account (startDate period (now e)) (now e) channel)"
  shows "\<exists>err.
           history_handler minuteKey accounts e s sensorId periodParam =
             Some (\<lparr>res_sensorId = sensorId, res_period = period,
                     res_data = getHistory minuteKey (now_local e) (historyFile s) sensorId period,
                     res_source = Some ''local'', res_error = err\<rparr>,
                   s,
                   [CallHistoryApi (acc_id account) (startDate period (now e)) (now e) channel,
                    ReadStore sensorId period])"
proof -
  have m: "match_sensorId sensorId = Some (''account'' @ ds1, channel)"
    by (rule match_sensorId_pattern [OF assms(1)])
  let ?result = "fetchEcowittHistory e account (startDate period (now e)) (now e) channel"
  let ?call = "CallHistoryApi (acc_id account) (startDate period (now e)) (now e) channel"
  have h: "history_handler minuteKey accounts e s sensorId periodParam =
     (case ?result of
        FetchError msg \<Rightarrow>
          Some (local_response minuteKey e s sensorId period None, s,
                [?call, ReadStore sensorId period])
      | FetchData payload \<Rightarrow>
          (case payload (''soil_ch'' @ channel) of
             None \<Rightarrow> Some (local_response minuteKey e s sensorId period None, s,
                           [?call, ReadStore sensorId period])
           | Some entries \<Rightarrow>
               (case downsample period (sort_key time entries) of
                  None \<Rightarrow> None
                | Some reduced \<Rightarrow>
                    if list_all (\<lambda>r. valid_date (time r * 1000)) reduced
                    then Some (\<lparr>res_sensorId = sensorId, res_period = period,
                                 res_data = map (\<lambda>r. \<lparr>moisture = val r,
                                                       timestamp = time r * 1000\<rparr>) reduced,
                                 res_source = Some ''ecowitt'', res_error = None\<rparr>,
                               s, [?call])
                    else Some (local_response minuteKey e s sensorId period
                                 (Some ''Invalid time value''), s,
                               [?call, ReadStore sensorId period]))))"
    using assms(2) assms(4)
    unfolding history_handler_def m assms(3) [symmetric]
    by (simp add: Let_def split: history_fetch.splits)
  show ?thesis
    using assms(5) unfolding h upstream_failed_def local_response_def
    by (auto split: history_fetch.splits option.splits)
qed

theorem C5_local_fallback_witness:
  "\<exists>err.
     history_handler (\<lambda>t. t div 60000) [example_account] example_env example_state
       ''account1_soil_ch1'' (Some ''24h'') =
       Some (\<lparr>res_sensorId = ''account1_soil_ch1'', res_period = ''24h'',
               res_data = getHistory (\<lambda>t. t div 60000) (now_local example_env)
                            (historyFile example_state) ''account1_soil_ch1'' ''24h'',
               res_source = Some ''local'', res_error = err\<rparr>,
             example_state,
             [CallHistoryApi (acc_id example_account) (startDate ''24h'' (now example_env))
                (now example_env) ''1'',
              ReadStore ''account1_soil_ch1'' ''24h''])"
proof -
  have f: "find (\<lambda>a. acc_id a = ''account'' @ ''1'') [example_account] = Some example_account"
    by (simp add: example_account_def)
  have p: "''24h'' = (case Some ''24h'' of None \<Rightarrow> ''24h'' | Some p \<Rightarrow> p)" by simp
  have n: "''24h'' \<noteq> ''1h''" by simp
  have u: "upstream_failed ''24h'' ''1''
             (fetchEcowittHistory example_env example_account
                (startDate ''24h'' (now example_env)) (now example_env) ''1'')"
    by (simp add: upstream_failed_def example_env_def)
  show ?thesis by (rule C5_local_fallback [OF example_pattern f p n u])
qed

section \<open>Properties of the live poller and its cache\<close>

lemma sensors_handler_cases:
  "sensors_handler m a e s = (r, s', c) \<Longrightarrow>
     (sensorCache s' = sensorCache s \<and> sensorCacheTime s' = sensorCacheTime s) \<or>
     (\<not> m \<and> a \<noteq> [] \<and> sensorCache s' = Some r \<and> sensorCacheTime s' = t_fetched e)"
  by (auto simp: sensors_handler_def Let_def split: option.splits if_splits)

lemma reachable_cache:
  assumes "reachable m a s" and "sensorCache s \<noteq> None"
  shows "\<not> m \<and> a \<noteq> []"
  using assms
proof (induction rule: reachable.induct)
  case (start s)
  then show ?case by simp
next
  case (poll s e r s' c)
  from sensors_handler_cases [OF poll.hyps(2)] poll show ?case by auto
next
  case (other s s')
  then show ?case by simp
qed

lemma cache_hit:
  assumes "\<not> m" and "a \<noteq> []" and "sensorCache s = Some snap"
    and "t_request e - sensorCacheTime s < 5000"
  shows "sensors_handler m a e s = (snap, s, [])"
  using assms by (simp add: sensors_handler_def SENSOR_CACHE_TTL_def)

lemma first_call_result:
  assumes "\<not> m" and "a \<noteq> []"
    and "sensors_handler m a e1 s0 = (r1, s1, c1)"
    and "sensorCache s1 = Some snap"
  shows "r1 = snap \<or>
         (sensorCache s0 = Some snap \<and> sensorCacheTime s1 = sensorCacheTime s0 \<and>
          \<not> t_request e1 - sensorCacheTime s0 < 5000)"
  using assms
  by (auto simp: sensors_handler_def SENSOR_CACHE_TTL_def Let_def split: option.splits if_splits)

text \<open>
  C7. Take two calls of the \<^verbatim>\<open>/api/sensors\<close> handler on a running server, the second on the
  state the first leaves (nothing written in between) and not earlier by the clock. If
  that state holds a snapshot and the second call arrives less than 5 seconds after the
  snapshot was stored, the second call returns the snapshot, makes no upstream call and
  leaves the state as it is; and the first call returned that same snapshot.
\<close>

theorem C7_cache_fresh:
  assumes "reachable USE_MOCK_DATA accounts s0"
    and "sensors_handler USE_MOCK_DATA accounts e1 s0 = (r1, s1, c1)"
    and "sensorCache s1 = Some snapshot"
    and "t_request e1 \<le> t_request e2"
    and "t_request e2 - sensorCacheTime s1 < 5000"
  shows "sensors_handler USE_MOCK_DATA accounts e2 s1 = (snapshot, s1, []) \<and> r1 = snapshot"
proof -
  have "reachable USE_MOCK_DATA accounts s1" using assms(1,2) by (rule reachable.poll)
  with assms(3) have cfg: "\<not> USE_MOCK_DATA" "accounts \<noteq> []"
    using reachable_cache [of USE_MOCK_DATA accounts s1] by simp_all
  have hit: "sensors_handler USE_MOCK_DATA accounts e2 s1 = (snapshot, s1, [])"
    by (rule cache_hit [OF cfg assms(3,5)])
  from first_call_result [OF cfg assms(2,3)] assms(4,5)
  have "r1 = snapshot" by auto
  with hit show ?thesis by simp
qed

lemma example_first_poll:
  "fst (sensors_handler False [example_account] example_poll example_state) =
     \<lparr>sensors = [example_sensor], mock = False, errors = None, lastUpdated = 99990000\<rparr> \<and>
   sensorCache (fst (snd (sensors_handler False [example_account] example_poll example_state))) =
     Some \<lparr>sensors = [example_sensor], mock = False, errors = None, lastUpdated = 99990000\<rparr> \<and>
   sensorCacheTime (fst (snd (sensors_handler False [example_account] example_poll example_state))) =
     100000300"
  by (simp add: sensors_handler_def example_poll_def example_state_def example_sensor_def
      collect_errors_def latestSensorTime_def List.map_filter_def Let_def SENSOR_CACHE_TTL_def)

theorem C7_cache_fresh_witness:
  "sensors_handler False [example_account] example_poll_later
     (fst (snd (sensors_handler False [example_account] example_poll example_state))) =
     (\<lparr>sensors = [example_sensor], mock = False, errors = None, lastUpdated = 99990000\<rparr>,
      fst (snd (sensors_handler False [example_account] example_poll example_state)), []) \<and>
   fst (sensors_handler False [example_account] example_poll example_state) =
     \<lparr>sensors = [example_sensor], mock = False, errors = None, lastUpdated = 99990000\<rparr>"
proof -
  let ?first = "sensors_handler False [example_account] example_poll example_state"
  have r: "reachable False [example_account] example_state"
    by (rule reachable.start) (simp_all add: example_state_def)
  have h: "?first = (fst ?first, fst (snd ?first), snd (snd ?first))" by simp
  have c: "sensorCache (fst (snd ?first)) =
           Some \<lparr>sensors = [example_sensor], mock = False, errors = None, lastUpdated = 99990000\<rparr>"
    using example_first_poll by simp
  have t: "t_request example_poll \<le> t_request example_poll_later"
    by (simp add: example_poll_def example_poll_later_def)
  have f: "t_request example_poll_later - sensorCacheTime (fst (snd ?first)) < 5000"
    using example_first_poll by (simp add: example_poll_later_def)
  show ?thesis using C7_cache_fresh [OF r h c t f] by simp
qed

end
